theory Spec2Isabelle
  imports Complex_Main
begin

section \<open>JavaScript strings\<close>

text \<open>
  A string is a list of characters. Characters are the 8-bit \<open>char\<close> of HOL, read as
  the code units U+0000 to U+00FF, one terminal column each; \<open>length\<close> is the
  \<^verbatim>\<open>.length\<close> of the source. The functions below are the \<^verbatim>\<open>String.prototype\<close>
  methods the sources call, restricted to that range.
\<close>

definition isWhiteSpace :: "char \<Rightarrow> bool" where
  \<comment> \<open>WhiteSpace and LineTerminator of ECMAScript below U+0100: TAB, LF, VT, FF, CR, SP, NBSP.\<close>
  "isWhiteSpace c =
     (c \<in> set [CHR 0x09, CHR 0x0A, CHR 0x0B, CHR 0x0C, CHR 0x0D, CHR 0x20, CHR 0xA0])"

definition trim :: "string \<Rightarrow> string" where
  "trim s = rev (dropWhile isWhiteSpace (rev (dropWhile isWhiteSpace s)))"

fun indexOf :: "string \<Rightarrow> char \<Rightarrow> int" where
  \<comment> \<open>\<^verbatim>\<open>s.indexOf(c)\<close> for a one-character needle: the first position, or -1.\<close>
  "indexOf [] c = - 1"
| "indexOf (x # xs) c =
     (if x = c then 0
      else (let i = indexOf xs c in if i < 0 then - 1 else i + 1))"

definition slice :: "string \<Rightarrow> int \<Rightarrow> int \<Rightarrow> string" where
  \<comment> \<open>\<^verbatim>\<open>s.slice(b, e)\<close>: a negative index counts from the end, both are clamped.\<close>
  "slice s b e =
     (let n = int (length s);
          from = (if b < 0 then max (n + b) 0 else min b n);
          to = (if e < 0 then max (n + e) 0 else min e n)
      in take (nat (to - from)) (drop (nat from) s))"

definition startsWith :: "string \<Rightarrow> char \<Rightarrow> bool" where
  "startsWith s c = (case s of [] \<Rightarrow> False | x # _ \<Rightarrow> x = c)"

fun splitStr :: "char \<Rightarrow> string \<Rightarrow> string list" where
  \<comment> \<open>\<^verbatim>\<open>s.split(c)\<close>: the empty string splits into one empty piece.\<close>
  "splitStr c [] = [[]]"
| "splitStr c (x # xs) =
     (if x = c then [] # splitStr c xs
      else (case splitStr c xs of [] \<Rightarrow> [[x]] | l # ls \<Rightarrow> (x # l) # ls))"

fun includesStr :: "string \<Rightarrow> string \<Rightarrow> bool" where
  \<comment> \<open>\<^verbatim>\<open>s.includes(q)\<close>: \<open>q\<close> occurs in \<open>s\<close> at some position.\<close>
  "includesStr [] q = (q = [])"
| "includesStr (x # xs) q = (take (length q) (x # xs) = q \<or> includesStr xs q)"

definition toLowerChar :: "char \<Rightarrow> char" where
  \<comment> \<open>A-Z and the Latin-1 capitals U+00C0 to U+00DE (without the sign U+00D7) have their
      lower case 32 code points above; every other code unit of the range is unchanged.\<close>
  "toLowerChar c =
     (let n = (of_char c :: nat)
      in if (65 \<le> n \<and> n \<le> 90) \<or> (192 \<le> n \<and> n \<le> 222 \<and> n \<noteq> 215)
         then char_of (n + 32) else c)"

definition toLowerCase :: "string \<Rightarrow> string" where
  "toLowerCase s = map toLowerChar s"

definition isQuote :: "char \<Rightarrow> bool" where
  "isQuote c = (c = CHR 0x27 \<or> c = CHR 0x22)"

fun quoteFreeRuns :: "string \<Rightarrow> string \<Rightarrow> string list" where
  \<comment> \<open>The matches of the global pattern \<^verbatim>\<open>/[^'"]+/gm\<close>, left to right: the maximal non-empty
      runs of characters other than the two quotes. The first argument is the run being read.\<close>
  "quoteFreeRuns cur [] = (if cur = [] then [] else [cur])"
| "quoteFreeRuns cur (c # cs) =
     (if isQuote c then (if cur = [] then quoteFreeRuns [] cs else cur # quoteFreeRuns [] cs)
      else quoteFreeRuns (cur @ [c]) cs)"

definition matchRuns :: "string \<Rightarrow> (string \<times> string list) option" where
  \<comment> \<open>\<^verbatim>\<open>s.match(/[^'"]+/gm)\<close>: \<^verbatim>\<open>null\<close> when nothing matches, else the array of all
      matches, which is never empty: its first element and the others.\<close>
  "matchRuns s = (case quoteFreeRuns [] s of [] \<Rightarrow> None | r # rs \<Rightarrow> Some (r, rs))"

section \<open>Column alignment\<close>

definition calculateTabs :: "string list \<Rightarrow> int list" where
  \<comment> \<open>\<^verbatim>\<open>Math.max()\<close> of no arguments is \<^verbatim>\<open>-Infinity\<close>, and the maps then run over nothing.\<close>
  "calculateTabs strings =
     (case map (\<lambda>s. int (length s)) strings of
        [] \<Rightarrow> []
      | l # ls \<Rightarrow>
          (let mx = fold max ls l
           in map (\<lambda>f. f + 1)
                (map (\<lambda>d. d div 8)
                  (map (\<lambda>l. mx - l)
                    (map (\<lambda>s. int (length s)) strings)))))"

definition padName :: "string \<Rightarrow> int \<Rightarrow> string" where
  \<comment> \<open>The head of a rendered catalog entry: the name and \<^verbatim>\<open>'\t'.repeat(tabOffset)\<close>.
      The counts of \<^verbatim>\<open>calculateTabs\<close> are positive; \<^verbatim>\<open>repeat\<close> would throw on a negative one.\<close>
  "padName name tabOffset = name @ replicate (nat tabOffset) (CHR 0x09)"

fun columnAfter :: "nat \<Rightarrow> string \<Rightarrow> nat" where
  \<comment> \<open>The terminal column reached by printing a string from a column, with tab stops every
      8 columns: a tab moves to the next stop, any other character one column on.\<close>
  "columnAfter col [] = col"
| "columnAfter col (c # cs) =
     columnAfter (if c = CHR 0x09 then (col div 8 + 1) * 8 else col + 1) cs"

section \<open>Template questions\<close>

definition ESC :: char where
  "ESC = CHR 0x1B"

definition COLOR_GRAY :: string where
  "COLOR_GRAY = ESC # ''[30m''"

definition COLOR_CYAN :: string where
  "COLOR_CYAN = ESC # ''[36m''"

definition COLOR_DEFAULT :: string where
  "COLOR_DEFAULT = ESC # ''[0m''"

definition GEAR :: string where
  \<comment> \<open>The sign U+2699 of the question prefix lies outside the modelled range of code
      units; its UTF-8 bytes stand for it.\<close>
  "GEAR = [CHR 0xE2, CHR 0x9A, CHR 0x99]"

datatype answer =
    Str string
  | Arr string "string list"
  \<comment> \<open>A default or an answer of a prompt: a string, or the array of a pattern match
      (\<open>Arr r rs\<close> is the array of \<open>r\<close> followed by \<open>rs\<close>).\<close>

fun answerLength :: "answer \<Rightarrow> nat" where
  "answerLength (Str s) = length s"
| "answerLength (Arr r rs) = Suc (length rs)"

record question =
  q_prefix :: string
  q_name :: string
  q_message :: string
  q_type :: string
  q_default :: "answer option"

definition composeQuestion :: "string \<Rightarrow> string \<Rightarrow> question" where
  "composeQuestion line comment =
     (let envName = trim (slice line 0 (indexOf line (CHR ''='')));
          envDefaultValue =
            (case matchRuns (trim (slice line (indexOf line (CHR ''='') + 1) (int (length line)))) of
               None \<Rightarrow> Str ''''
             | Some (r, rs) \<Rightarrow> Arr r rs)
      in \<lparr> q_prefix = ''\<newline>'' @ comment @ COLOR_CYAN @ GEAR @ COLOR_DEFAULT,
           q_name = envName,
           q_message = envName @ '' ='',
           q_type = ''input'',
           q_default = (if answerLength envDefaultValue > 0 then Some envDefaultValue else None) \<rparr>)"

fun extractQuestionsFrom :: "string \<Rightarrow> question list \<Rightarrow> string list \<Rightarrow> question list" where
  \<comment> \<open>The \<^verbatim>\<open>forEach\<close> of \<^verbatim>\<open>extractQuestions\<close>, from the comment gathered and the
      questions pushed so far.\<close>
  "extractQuestionsFrom comment envQuestions [] = envQuestions"
| "extractQuestionsFrom comment envQuestions (line # rest) =
     (if startsWith line (CHR ''#'')
      then extractQuestionsFrom
             (comment @ COLOR_GRAY @ ''INFO: ''
                @ trim (slice line (indexOf line (CHR ''#'') + 1) (int (length line)))
                @ COLOR_DEFAULT @ ''\<newline>'')
             envQuestions rest
      else extractQuestionsFrom '''' (envQuestions @ [composeQuestion line comment]) rest)"

definition extractQuestions :: "string list \<Rightarrow> question list" where
  "extractQuestions envArray = extractQuestionsFrom '''' [] envArray"

definition parseStringToArray :: "string \<Rightarrow> string list" where
  "parseStringToArray s =
     filter (\<lambda>line. length line > 0) (map trim (splitStr (CHR ''\<newline>'') s))"

section \<open>Configuration files\<close>

text \<open>
  A \<^verbatim>\<open>Config\<close> is a plain object, here the list of its own entries in the order in which
  the object enumerates them: the keys that are array indices first, by ascending value,
  then the other keys in the order of their first assignment. A key that has no entry
  reads as \<^verbatim>\<open>undefined\<close>, here \<open>None\<close>. The file system is a map from paths to contents; a
  file that cannot be read is a path without content.
\<close>

type_synonym config = "(string \<times> string) list"

type_synonym files = "string \<rightharpoonup> string"

definition isDigit :: "char \<Rightarrow> bool" where
  "isDigit c = (c \<in> set ''0123456789'')"

definition indexValue :: "string \<Rightarrow> nat" where
  \<comment> \<open>The number that a string of decimal digits writes.\<close>
  "indexValue k = foldl (\<lambda>n c. 10 * n + (of_char c - 48)) 0 k"

definition isArrayIndex :: "string \<Rightarrow> bool" where
  \<comment> \<open>An array index: the canonical decimal writing (no leading zero) of an integer from
      0 to 2^32 - 2.\<close>
  "isArrayIndex k =
     (k \<noteq> [] \<and> list_all isDigit k \<and> (k = ''0'' \<or> take 1 k \<noteq> ''0'')
      \<and> indexValue k \<le> 4294967294)"

fun insertIndex :: "string \<Rightarrow> 'v \<Rightarrow> (string \<times> 'v) list \<Rightarrow> (string \<times> 'v) list" where
  \<comment> \<open>The place of a new array index among the entries: after the array indices of
      smaller value, before every other entry.\<close>
  "insertIndex k v [] = [(k, v)]"
| "insertIndex k v ((k', v') # rest) =
     (if isArrayIndex k' \<and> indexValue k' < indexValue k
      then (k', v') # insertIndex k v rest
      else (k, v) # (k', v') # rest)"

definition assign :: "(string \<times> 'v) list \<Rightarrow> string \<Rightarrow> 'v \<Rightarrow> (string \<times> 'v) list" where
  \<comment> \<open>\<^verbatim>\<open>obj[k] = v\<close> for a string or an array \<open>v\<close>. A key that has an entry keeps its place
      and takes the value. Of the new keys, \<^verbatim>\<open>__proto__\<close> gets no entry (the assignment runs
      the setter of \<^verbatim>\<open>Object.prototype\<close>, which ignores a value that is no object), an array
      index goes to its place among the indices, and any other key goes to the end.\<close>
  "assign obj k v =
     (if k \<in> set (map fst obj)
      then map (\<lambda>(k', v'). if k' = k then (k', v) else (k', v')) obj
      else if k = ''__proto__'' then obj
      else if isArrayIndex k then insertIndex k v obj
      else obj @ [(k, v)])"

datatype event =
    ConsoleLog string
  | ConsoleWarn string
  | ConsoleError string
  | Prompt "string list"
  | Exec string
  | WriteFile string string
  \<comment> \<open>What a run does to the outside, in order: console output, a call of
      \<^verbatim>\<open>inquirer.prompt\<close> (the names of its questions), a command, a file written.\<close>

datatype error =
    ReadError string
  | CommandError string
  | CreationError

record env_entry =
  envName :: string
  envValue :: "(string \<times> string list) option"

definition extractEnv :: "string \<Rightarrow> env_entry" where
  "extractEnv line =
     \<lparr> envName = trim (slice line 0 (indexOf line (CHR ''=''))),
       envValue = matchRuns (trim (slice line (indexOf line (CHR ''='') + 1) (int (length line)))) \<rparr>"

definition configExists :: "files \<Rightarrow> string \<Rightarrow> bool" where
  "configExists fs configPath = (fs configPath \<noteq> None)"

definition configLines :: "string \<Rightarrow> string list" where
  "configLines content =
     filter (\<lambda>line. \<not> startsWith line (CHR ''#'') \<and> trim line \<noteq> '''')
       (splitStr (CHR ''\<newline>'') content)"

definition storeLine :: "string \<Rightarrow> config \<Rightarrow> config" where
  \<comment> \<open>The body of the \<^verbatim>\<open>forEach\<close> of \<^verbatim>\<open>loadConfig\<close>: \<^verbatim>\<open>envValue?.[0] ?? ''\<close>.\<close>
  "storeLine line cfgObj =
     (let e = extractEnv line
      in assign cfgObj (envName e) (case envValue e of None \<Rightarrow> '''' | Some (r, rs) \<Rightarrow> r))"

definition parseConfig :: "string \<Rightarrow> config" where
  "parseConfig content = fold storeLine (configLines content) []"

definition loadConfig :: "files \<Rightarrow> string option \<Rightarrow> (error + config) \<times> event list" where
  \<comment> \<open>\<^verbatim>\<open>readFileSync\<close> throws when the file cannot be read.\<close>
  "loadConfig fs configPath =
     (let actualConfigPath = (case configPath of None \<Rightarrow> ''./config.cfg'' | Some p \<Rightarrow> p)
      in case fs actualConfigPath of
           None \<Rightarrow> (Inl (ReadError actualConfigPath), [])
         | Some content \<Rightarrow>
             (Inr (parseConfig content),
              [ConsoleLog (''Loaded config from '' @ actualConfigPath @ '' successfully'')]))"

definition buildEnv :: "config \<Rightarrow> string" where
  \<comment> \<open>Modelled from the spec: \<^verbatim>\<open>buildEnv\<close> of the module \<^verbatim>\<open>./utils\<close>, which is not among
      the sources. It serializes the mapping in insertion order (the order of the entries) as \<^verbatim>\<open>KEY=VALUE\<close> lines,
      the values with no further escaping.\<close>
  "buildEnv cfg = concat (map (\<lambda>(k, v). k @ ''='' @ v @ ''\<newline>'') cfg)"

definition saveConfig :: "files \<Rightarrow> string \<Rightarrow> config \<Rightarrow> files" where
  \<comment> \<open>Modelled from the spec: the \<^verbatim>\<open>save\<close> of the configuration store, as the wizard does
      it: \<^verbatim>\<open>writeFileSync(path, buildEnv(config))\<close>.\<close>
  "saveConfig fs path cfg = fs(path \<mapsto> buildEnv cfg)"

definition storedValue :: "string \<Rightarrow> string" where
  \<comment> \<open>What the line of a configuration file stores under its name.\<close>
  "storedValue line = (case envValue (extractEnv line) of None \<Rightarrow> '''' | Some (r, rs) \<Rightarrow> r)"

definition plainKey :: "string \<Rightarrow> bool" where
  \<comment> \<open>A key that a line of the file can carry as it is: no \<open>=\<close>, no line break, no
      \<open>#\<close> at its start, no white space at its ends.\<close>
  "plainKey k =
     (CHR ''='' \<notin> set k \<and> CHR ''\<newline>'' \<notin> set k \<and> \<not> startsWith k (CHR ''#'') \<and> trim k = k)"

definition plainValue :: "string \<Rightarrow> bool" where
  \<comment> \<open>A value that a line of the file can carry as it is: no quote, no line break, no
      white space at its ends.\<close>
  "plainValue v =
     (CHR ''\<newline>'' \<notin> set v \<and> (\<forall>c \<in> set v. \<not> isQuote c) \<and> trim v = v)"

definition objectOrder :: "(string \<times> 'v) list \<Rightarrow> bool" where
  \<comment> \<open>The entries of an object that assignments have built: distinct keys, none of them
      \<^verbatim>\<open>__proto__\<close>, and before an array index only array indices of smaller value.\<close>
  "objectOrder obj =
     (distinct (map fst obj) \<and> ''__proto__'' \<notin> set (map fst obj)
      \<and> sorted_wrt (\<lambda>a b. isArrayIndex b \<longrightarrow> isArrayIndex a \<and> indexValue a < indexValue b)
            (map fst obj))"

section \<open>The configuration wizard\<close>

text \<open>
  The module \<^verbatim>\<open>./constants\<close> is not among the sources: the colour codes that
  \<^verbatim>\<open>config.ts\<close> imports from it are parameters of the functions below.
\<close>

record colors =
  c_YELLOW :: string
  c_DEFAULT :: string
  c_GRAY :: string

text \<open>
  One pass through the body of \<^verbatim>\<open>interactivelyGenerateConfig\<close> asks three prompts, and a
  fourth when the destination exists. An \<open>attempt\<close> holds what the user answers in one
  pass; the last field is read only when the overwrite prompt is shown. The world is the
  file system and the trace of what the run did so far. Writing a file succeeds.
\<close>

record attempt =
  a_envVarValues :: "(string \<times> answer) list"
  a_filename :: string
  a_confirm :: bool
  a_confirmoverwrite :: bool

record world =
  w_files :: files
  w_log :: "event list"

definition emit :: "world \<Rightarrow> event \<Rightarrow> world" where
  "emit w e = w\<lparr>w_log := w_log w @ [e]\<rparr>"

definition writeFileSync :: "world \<Rightarrow> string \<Rightarrow> string \<Rightarrow> world" where
  "writeFileSync w path content =
     emit (w\<lparr>w_files := (w_files w)(path \<mapsto> content)\<rparr>) (WriteFile path content)"

definition resultConfig :: "(string \<times> answer) list \<Rightarrow> config" where
  "resultConfig envVarValues =
     fold (\<lambda>(key, value) cfg.
             assign cfg key (case value of Arr r rs \<Rightarrow> r | Str s \<Rightarrow> s))
       envVarValues []"

definition wizardPass ::
  "colors \<Rightarrow> ((string \<times> answer) list \<Rightarrow> string) \<Rightarrow> string list \<Rightarrow> world \<Rightarrow> attempt
     \<Rightarrow> world + (config \<times> world)" where
  \<comment> \<open>The body of \<^verbatim>\<open>interactivelyGenerateConfig\<close>, once through. \<open>Inl\<close> is a
      \<^verbatim>\<open>return interactivelyGenerateConfig()\<close>, \<open>Inr\<close> the \<^verbatim>\<open>return resultConfig\<close>.
      \<open>buildEnv'\<close> stands for the function \<^verbatim>\<open>buildEnv\<close> of \<^verbatim>\<open>./utils\<close> applied to the raw answers and
      \<open>envArray\<close> for what \<^verbatim>\<open>readExampleConfig()\<close> returns.\<close>
  "wizardPass K buildEnv' envArray w a =
     (let envQuestions = extractQuestions envArray;
          w1 = emit (emit (emit w (Prompt (map q_name envQuestions)))
                       (Prompt [''filename'']))
                 (Prompt [''confirm'']);
          path = ''./'' @ a_filename a @ ''.cfg''
      in if \<not> a_confirm a then Inl w1
         else
           (case (if configExists (w_files w1) path
                  then (let w2 = emit w1 (Prompt [''confirmoverwrite''])
                        in if a_confirmoverwrite a
                           then Inr (writeFileSync w2 path (buildEnv' (a_envVarValues a)))
                           else Inl (emit w2 (ConsoleWarn
                                  (c_YELLOW K @ ''[WARN] Aborting...'' @ c_DEFAULT K))))
                  else Inr w1) of
              Inl w' \<Rightarrow> Inl w'
            | Inr w' \<Rightarrow>
                if \<not> a_confirm a then Inl w'
                else Inr (resultConfig (a_envVarValues a),
                          writeFileSync w' path (buildEnv' (a_envVarValues a)))))"

fun interactivelyGenerateConfig ::
  "colors \<Rightarrow> ((string \<times> answer) list \<Rightarrow> string) \<Rightarrow> string list \<Rightarrow> world \<Rightarrow> attempt list
     \<Rightarrow> (config \<times> world) option" where
  \<comment> \<open>The run over the answers the user gives, pass after pass. \<open>None\<close>: the run has not
      returned when the answers end (it waits at a prompt).\<close>
  "interactivelyGenerateConfig K buildEnv' envArray w [] = None"
| "interactivelyGenerateConfig K buildEnv' envArray w (a # rest) =
     (case wizardPass K buildEnv' envArray w a of
        Inl w' \<Rightarrow> interactivelyGenerateConfig K buildEnv' envArray w' rest
      | Inr r \<Rightarrow> Some r)"

fun writesOf :: "event list \<Rightarrow> (string \<times> string) list" where
  \<comment> \<open>The files written in a trace, in order: path and content.\<close>
  "writesOf [] = []"
| "writesOf (WriteFile path content # es) = (path, content) # writesOf es"
| "writesOf (e # es) = writesOf es"

fun warningsOf :: "event list \<Rightarrow> string list" where
  "warningsOf [] = []"
| "warningsOf (ConsoleWarn m # es) = m # warningsOf es"
| "warningsOf (e # es) = warningsOf es"

fun promptsOf :: "event list \<Rightarrow> string list list" where
  "promptsOf [] = []"
| "promptsOf (Prompt names # es) = names # promptsOf es"
| "promptsOf (e # es) = promptsOf es"

section \<open>Validated selection\<close>

text \<open>
  \<open>execCommand\<close> is the outside: the standard output of a command line, or \<open>None\<close> when
  the command fails and the promise is rejected. The answer the user gives to the one
  prompt of a selector is its last argument.
\<close>

definition logUsedConfig :: "string \<Rightarrow> string option \<Rightarrow> event" where
  \<open>logUsedConfig key value =
     ConsoleLog (''Using '' @ key @ ''=''
       @ (case value of None \<Rightarrow> ''*********'' | Some v \<Rightarrow> v) @ '' from config file.'')\<close>



definition regionSource :: "string \<Rightarrow> string option \<Rightarrow> string list" where
  \<open>regionSource stdout input =
     filter (\<lambda>name. includesStr (toLowerCase name)
                      (case input of None \<Rightarrow> '''' | Some i \<Rightarrow> toLowerCase i))
       (splitStr (CHR ''\<newline>'') stdout)\<close>


definition createGoogleCloudProject ::
  "(string \<Rightarrow> string option) \<Rightarrow> string \<Rightarrow> string \<Rightarrow> bool \<times> event list" where
  \<comment> \<open>\<open>projectId\<close> is what \<^verbatim>\<open>generateRandomGcpProjectId()\<close> returns in this call.\<close>
  \<open>createGoogleCloudProject execCommand projectId name =
     (let cmd = ''gcloud projects create '' @ projectId @ '' --name="'' @ name @ ''"'';
          log0 = [ConsoleLog (''Creating new GCP project with the name: '' @ name
                    @ '' and the project ID: '' @ projectId @ ''...''),
                  Exec cmd]
      in case execCommand cmd of
           Some out \<Rightarrow> (True, log0)
         | None \<Rightarrow>
             (False,
              log0 @ [ConsoleError ''Could not create GCP project. Please check if the project ID is (globally) unique and valid.'']))\<close>

definition gcloudSetProject ::
  "colors \<Rightarrow> (string \<Rightarrow> string option) \<Rightarrow> string \<Rightarrow> (error + string) \<times> event list" where
  \<open>gcloudSetProject K execCommand name =
     (let cmd = ''gcloud config set project '' @ name
      in case execCommand cmd of
           None \<Rightarrow> (Inl (CommandError cmd), [Exec cmd])
         | Some out \<Rightarrow>
             (Inr name,
              [Exec cmd,
               ConsoleWarn (c_YELLOW K @ ''[WARN] Important: Check if Cloud Build API is enabled for ''
                 @ name @ c_DEFAULT K)]))\<close>

definition projectNameSource :: "string \<Rightarrow> string option \<Rightarrow> string list" where
  \<open>projectNameSource stdout input =
     filter (\<lambda>name. includesStr (toLowerCase name)
                      (case input of None \<Rightarrow> '''' | Some i \<Rightarrow> toLowerCase i)
                    \<and> name \<noteq> '''')
       (splitStr (CHR ''\<newline>'') stdout)\<close>

definition useSelectedProject ::
  "colors \<Rightarrow> (string \<Rightarrow> string option) \<Rightarrow> string \<Rightarrow> string \<Rightarrow> string
     \<Rightarrow> (error + string) \<times> event list" where
  \<comment> \<open>The end of \<^verbatim>\<open>selectGoogleCloudProject\<close>, after its prompt: a name that the listing
      does not include is created first, and the failure to create it is thrown.\<close>
  \<open>useSelectedProject K execCommand projectId stdout selectedProject =
     (if \<not> includesStr stdout selectedProject
      then (case createGoogleCloudProject execCommand projectId selectedProject of
              (creationSuccess, log2) \<Rightarrow>
                if \<not> creationSuccess then (Inl CreationError, log2)
                else (case gcloudSetProject K execCommand selectedProject of
                        (r, log3) \<Rightarrow> (r, log2 @ log3)))
      else gcloudSetProject K execCommand selectedProject)\<close>


definition invalidWarning :: "colors \<Rightarrow> string \<Rightarrow> string \<Rightarrow> string" where
  \<comment> \<open>The text of the warning that a selector prints for a configured value it rejects.\<close>
  "invalidWarning K key value =
     c_YELLOW K @ ''[WARN] Invalid '' @ key @ ''='' @ value @ '' in config.'' @ c_DEFAULT K"

section \<open>The catalog of examples\<close>

record ProjectData =
  repository :: string
  description :: string
  tabOffset :: "int option"

definition withTabOffsets :: "ProjectData list \<Rightarrow> ProjectData list" where
  \<comment> \<open>The two statements that follow the fetch of the catalog: \<^verbatim>\<open>tabs[index]\<close> is
      \<^verbatim>\<open>undefined\<close> outside the array.\<close>
  "withTabOffsets githubProjects =
     (let tabs = calculateTabs (map repository githubProjects)
      in map (\<lambda>(index, project).
                project\<lparr>tabOffset := (if index < length tabs then Some (tabs ! index) else None)\<rparr>)
           (enumerate 0 githubProjects))"

definition renderProject :: "colors \<Rightarrow> ProjectData \<Rightarrow> string" where
  "renderProject K project =
     padName (repository project) (case tabOffset project of None \<Rightarrow> 1 | Some t \<Rightarrow> t)
     @ c_GRAY K @ '' - ''
     @ (if description project \<noteq> ''null''
        then slice (description project) 0 101
             @ (if length (description project) > 101 then ''...'' else '''')
        else '''')
     @ c_DEFAULT K"

definition exampleSource :: "colors \<Rightarrow> ProjectData list \<Rightarrow> string option \<Rightarrow> string list" where
  \<comment> \<open>The \<^verbatim>\<open>source\<close> of the autocomplete prompt of \<^verbatim>\<open>selectSipgateIOProject\<close> and of
      \<^verbatim>\<open>startCLI\<close>: the choices shown for what the user has typed so far.\<close>
  "exampleSource K githubProjects input =
     map (renderProject K)
       (filter (\<lambda>project.
                  includesStr (toLowerCase (repository project))
                    (case input of None \<Rightarrow> '''' | Some i \<Rightarrow> toLowerCase i)
                  \<or> includesStr (toLowerCase (description project))
                       (case input of None \<Rightarrow> '''' | Some i \<Rightarrow> toLowerCase i))
          githubProjects)"

definition selectSipgateIOProject ::
  "colors \<Rightarrow> ProjectData list \<Rightarrow> config \<Rightarrow> string \<Rightarrow> string \<times> event list" where
  \<comment> \<open>\<open>githubProjects\<close> is what \<^verbatim>\<open>getProjectList()\<close> fetched, \<open>selectedProject\<close> the choice
      the user picks at the prompt.\<close>
  "selectSipgateIOProject K githubProjects config selectedProject =
     (let projectName = map_option trim (map_of config ''EXAMPLE_REPO_NAME'');
          isValidProjectName =
            (case projectName of
               None \<Rightarrow> True
             | Some n \<Rightarrow> n = '''' \<or> find (\<lambda>x. repository x = n) githubProjects \<noteq> None);
          interactive =
            (trim (slice selectedProject 0 (indexOf selectedProject (CHR 0x09))),
             (if \<not> isValidProjectName
              then [ConsoleWarn (c_YELLOW K @ ''[WARN] Invalid EXAMPLE_REPO_NAME=''
                      @ (case projectName of None \<Rightarrow> ''undefined'' | Some n \<Rightarrow> n)
                      @ '' in config.'' @ c_DEFAULT K)]
              else [])
             @ [Prompt [''selectedProject'']])
      in case projectName of
           None \<Rightarrow> interactive
         | Some n \<Rightarrow>
             if n \<noteq> '''' \<and> isValidProjectName
             then (n, [logUsedConfig ''EXAMPLE_REPO_NAME'' projectName])
             else interactive)"

definition equalIgnoringCase :: "string \<Rightarrow> string \<Rightarrow> bool" where
  \<comment> \<open>Two strings of the same length that differ at most in the case of their letters.\<close>
  "equalIgnoringCase s t = list_all2 (\<lambda>a b. toLowerChar a = toLowerChar b) s t"

definition containsIgnoringCase :: "string \<Rightarrow> string \<Rightarrow> bool" where
  \<comment> \<open>The words of the specification: \<open>q\<close> is a case-insensitive substring of \<open>s\<close>, that
      is, some stretch of \<open>s\<close> equals \<open>q\<close> up to the case of letters.\<close>
  "containsIgnoringCase s q =
     list_ex (\<lambda>i. equalIgnoringCase (take (length q) (drop i s)) q) [0 ..< Suc (length s)]"

section \<open>Random project identifiers\<close>

definition characters :: string where
  "characters = ''abcdefghijklmnopqrstuvwxyz0123456789''"

definition charAtIndex :: "string \<Rightarrow> int \<Rightarrow> string" where
  \<comment> \<open>\<^verbatim>\<open>s[i]\<close> as \<^verbatim>\<open>join('')\<close> renders it: \<^verbatim>\<open>undefined\<close>, outside the string, joins as
      the empty string.\<close>
  "charAtIndex s i = (if 0 \<le> i \<and> i < int (length s) then [s ! nat i] else [])"

definition generateRandomGcpProjectId :: "(nat \<Rightarrow> real) \<Rightarrow> string" where
  \<comment> \<open>\<open>random i\<close> is what the call of \<^verbatim>\<open>Math.random()\<close> in round \<open>i\<close> of the loop returns.\<close>
  "generateRandomGcpProjectId random =
     (let prefix = ''sipgateio-'';
          projectIdLength = 30 - length prefix;
          randomChars =
            map (\<lambda>i. charAtIndex characters \<lfloor>random i * real (length characters)\<rfloor>)
              [0 ..< projectIdLength]
      in prefix @ concat randomChars)"

section \<open>Facts about the string functions\<close>

lemma indexOf_notin: "c \<notin> set s \<Longrightarrow> indexOf s c = - 1"
  by (induction s) (auto simp: Let_def)

lemma indexOf_in: "c \<in> set s \<Longrightarrow> indexOf s c = int (length (takeWhile (\<lambda>x. x \<noteq> c) s))"
  by (induction s) (auto simp: Let_def indexOf_notin)

lemma slice_take: "k \<le> length s \<Longrightarrow> slice s 0 (int k) = take k s"
  by (simp add: slice_def Let_def)

lemma slice_drop: "slice s (int k) (int (length s)) = drop k s"
proof (cases "k \<le> length s")
  case True
  then have "nat (int (length s) - int k) = length s - k" by simp
  with True show ?thesis by (simp add: slice_def Let_def)
next
  case False
  then show ?thesis by (simp add: slice_def Let_def)
qed

lemma slice_butlast: "slice s 0 (- 1) = butlast s"
proof -
  have "nat (max (int (length s) - 1) 0) = length s - 1" by simp
  moreover have "slice s 0 (- 1) = take (nat (max (int (length s) - 1) 0)) s"
    by (simp add: slice_def Let_def)
  ultimately show ?thesis by (simp only: butlast_conv_take)
qed

lemma slice_before:
  assumes "c \<in> set s"
  shows "slice s 0 (indexOf s c) = takeWhile (\<lambda>x. x \<noteq> c) s"
  unfolding indexOf_in[OF assms]
  by (simp add: slice_take length_takeWhile_le takeWhile_eq_take[symmetric])

lemma slice_after:
  assumes "c \<in> set s"
  shows "slice s (indexOf s c + 1) (int (length s)) = tl (dropWhile (\<lambda>x. x \<noteq> c) s)"
proof -
  have "indexOf s c + 1 = int (Suc (length (takeWhile (\<lambda>x. x \<noteq> c) s)))"
    unfolding indexOf_in[OF assms] by simp
  then have "slice s (indexOf s c + 1) (int (length s))
               = drop (Suc (length (takeWhile (\<lambda>x. x \<noteq> c) s))) s"
    by (simp only: slice_drop)
  also have "\<dots> = tl (dropWhile (\<lambda>x. x \<noteq> c) s)"
    by (simp add: dropWhile_eq_drop drop_Suc tl_drop)
  finally show ?thesis .
qed

lemma slice_before_absent:
  assumes "c \<notin> set s"
  shows "slice s 0 (indexOf s c) = butlast s"
  unfolding indexOf_notin[OF assms] by (rule slice_butlast)

lemma slice_after_absent:
  assumes "c \<notin> set s"
  shows "slice s (indexOf s c + 1) (int (length s)) = s"
  unfolding indexOf_notin[OF assms] using slice_drop[of s 0] by simp

lemma quoteFreeRuns_run:
  "cur \<noteq> [] \<Longrightarrow>
     quoteFreeRuns cur s =
       (cur @ takeWhile (\<lambda>c. \<not> isQuote c) s) # quoteFreeRuns [] (dropWhile (\<lambda>c. \<not> isQuote c) s)"
  by (induction s arbitrary: cur) auto

lemma quoteFreeRuns_leading: "quoteFreeRuns [] (dropWhile isQuote s) = quoteFreeRuns [] s"
  by (induction s) auto

lemma quoteFreeRuns_first:
  "quoteFreeRuns [] s =
     (case dropWhile isQuote s of
        [] \<Rightarrow> []
      | c # cs \<Rightarrow> takeWhile (\<lambda>c. \<not> isQuote c) (c # cs)
                 # quoteFreeRuns [] (dropWhile (\<lambda>c. \<not> isQuote c) (c # cs)))"
proof (cases "dropWhile isQuote s")
  case Nil
  then show ?thesis using quoteFreeRuns_leading[of s] by (simp del: dropWhile_eq_Nil_conv)
next
  case (Cons c cs)
  then have nq: "\<not> isQuote c" by (metis hd_dropWhile list.distinct(1) list.sel(1))
  have "quoteFreeRuns [] s = quoteFreeRuns [] (c # cs)"
    using quoteFreeRuns_leading[of s] Cons by simp
  also have "\<dots> = quoteFreeRuns [c] cs" using nq by simp
  also have "\<dots> = ([c] @ takeWhile (\<lambda>c. \<not> isQuote c) cs) # quoteFreeRuns [] (dropWhile (\<lambda>c. \<not> isQuote c) cs)"
    by (rule quoteFreeRuns_run) simp
  finally show ?thesis using Cons nq by simp
qed

section \<open>Column alignment: what the tab counts reach\<close>

lemma columnAfter_append: "columnAfter col (xs @ ys) = columnAfter (columnAfter col xs) ys"
  by (induction xs arbitrary: col) simp_all

lemma columnAfter_plain: "CHR 0x09 \<notin> set s \<Longrightarrow> columnAfter col s = col + length s"
  by (induction s arbitrary: col) auto

lemma columnAfter_tabs_aux:
  "columnAfter (k * 8) (replicate t (CHR 0x09)) = (k + t) * 8"
proof (induction t arbitrary: k)
  case 0
  show ?case by simp
next
  case (Suc t)
  have "columnAfter (k * 8) (replicate (Suc t) (CHR 0x09))
          = columnAfter (Suc k * 8) (replicate t (CHR 0x09))" by simp
  also have "\<dots> = (Suc k + t) * 8" by (rule Suc.IH)
  finally show ?case by simp
qed

lemma columnAfter_tabs:
  "columnAfter col (replicate (Suc t) (CHR 0x09)) = (col div 8 + Suc t) * 8"
proof -
  have "columnAfter col (replicate (Suc t) (CHR 0x09))
          = columnAfter (Suc (col div 8) * 8) (replicate t (CHR 0x09))" by simp
  also have "\<dots> = (Suc (col div 8) + t) * 8" by (rule columnAfter_tabs_aux)
  finally show ?thesis by simp
qed

lemma tab_stop_arith:
  fixes n m :: nat
  assumes "n \<le> m"
  shows "(n div 8 + Suc ((m - n) div 8)) * 8 =
     (if n mod 8 \<le> m mod 8 then (m div 8 + 1) * 8 else (m div 8) * 8)"
proof -
  define qn rn qm rm qd rd where "qn = n div 8" and "rn = n mod 8" and "qm = m div 8"
    and "rm = m mod 8" and "qd = (m - n) div 8" and "rd = (m - n) mod 8"
  have n: "n = 8 * qn + rn" and m: "m = 8 * qm + rm" and d: "m - n = 8 * qd + rd"
    and b: "rn < 8" "rm < 8" "rd < 8"
    unfolding qn_def rn_def qm_def rm_def qd_def rd_def by simp_all
  have e: "8 * qd + rd + 8 * qn + rn = 8 * qm + rm" using n m d assms by linarith
  have lo: "qn + qd \<le> qm" using e b by linarith
  have hi: "qm \<le> qn + qd + 1" using e b by linarith
  from lo hi have "qm = qn + qd \<or> qm = qn + qd + 1" by linarith
  then have "(qn + Suc qd) * 8 = (if rn \<le> rm then (qm + 1) * 8 else qm * 8)"
    using e b by (auto; linarith)
  then show ?thesis unfolding qn_def rn_def qm_def rm_def qd_def rd_def .
qed

lemma Max_int_length:
  assumes "strings \<noteq> []"
  shows "Max (set (map (\<lambda>s. int (length s)) strings)) = int (Max (length ` set strings))"
proof -
  have "int (Max (length ` set strings)) = Max (int ` (length ` set strings))"
    using assms by (intro mono_Max_commute) (auto simp: mono_def)
  then show ?thesis by (simp add: image_image)
qed

lemma calculateTabs_map:
  "calculateTabs strings =
     map (\<lambda>x. (int (Max (length ` set strings)) - int (length x)) div 8 + 1) strings"
proof (cases strings)
  case Nil
  then show ?thesis by (simp add: calculateTabs_def)
next
  case (Cons s ss)
  have "fold max (map (\<lambda>s. int (length s)) ss) (int (length s))
          = Max (set (map (\<lambda>s. int (length s)) strings))"
    by (simp only: Max.set_eq_fold Cons list.map)
  also have "\<dots> = int (Max (length ` set strings))"
    by (rule Max_int_length) (simp add: Cons)
  finally show ?thesis
    unfolding calculateTabs_def by (simp add: Cons Let_def)
qed

lemma padded_column:
  assumes "i < length strings" and "CHR 0x09 \<notin> set (strings ! i)"
  shows "columnAfter 0 (padName (strings ! i) (calculateTabs strings ! i)) =
           (if length (strings ! i) mod 8 \<le> Max (length ` set strings) mod 8
            then (Max (length ` set strings) div 8 + 1) * 8
            else (Max (length ` set strings) div 8) * 8)"
proof -
  define m where "m = Max (length ` set strings)"
  define n where "n = length (strings ! i)"
  have le: "n \<le> m" unfolding m_def n_def using assms(1) by (intro Max_ge) auto
  have "calculateTabs strings ! i = (int m - int n) div 8 + 1"
    using assms(1) by (simp add: calculateTabs_map m_def n_def)
  also have "\<dots> = int (Suc ((m - n) div 8))"
    using le by (simp add: zdiv_int)
  finally have t: "calculateTabs strings ! i = int (Suc ((m - n) div 8))" .
  have "columnAfter 0 (padName (strings ! i) (calculateTabs strings ! i))
          = (n div 8 + Suc ((m - n) div 8)) * 8"
    unfolding padName_def t columnAfter_append nat_int columnAfter_tabs
    using columnAfter_plain[OF assms(2), of 0] by (simp add: n_def)
  also have "\<dots> = (if n mod 8 \<le> m mod 8 then (m div 8 + 1) * 8 else (m div 8) * 8)"
    using le by (rule tab_stop_arith)
  finally show ?thesis unfolding m_def n_def .
qed

text \<open>
  Claim C2, as the code has it. For a list of names without tab characters,
  \<^verbatim>\<open>calculateTabs\<close> returns one count per name, in order, and the count of a name of
  length \<open>len\<close> is \<open>floor((maxLen - len) / 8) + 1\<close>, \<open>maxLen\<close> being the greatest length.
  Printed from column 0 and followed by that many tabs, the name ends at the tab stop
  \<open>(maxLen div 8 + 1) * 8\<close>, where the longest name with its one tab ends, exactly when
  \<open>len mod 8 \<le> maxLen mod 8\<close>; otherwise it ends one tab stop, 8 columns, before it.
\<close>

theorem calculateTabs_tab_stops:
  assumes "i < length strings" and "\<forall>s \<in> set strings. CHR 0x09 \<notin> set s"
  shows "length (calculateTabs strings) = length strings
       \<and> calculateTabs strings ! i =
           (int (Max (length ` set strings)) - int (length (strings ! i))) div 8 + 1
       \<and> columnAfter 0 (padName (strings ! i) (calculateTabs strings ! i)) =
           (if length (strings ! i) mod 8 \<le> Max (length ` set strings) mod 8
            then (Max (length ` set strings) div 8 + 1) * 8
            else (Max (length ` set strings) div 8) * 8)"
proof -
  have "CHR 0x09 \<notin> set (strings ! i)" using assms by simp
  then show ?thesis
    using assms(1) padded_column[of i strings] by (simp add: calculateTabs_map)
qed

theorem calculateTabs_tab_stops_witness:
  "calculateTabs [''abc'', ''abcdefghijk'', ''abcdefghijklmnopqrst''] ! 0 = 3
   \<and> columnAfter 0 (padName ''abc''
        (calculateTabs [''abc'', ''abcdefghijk'', ''abcdefghijklmnopqrst''] ! 0)) = 24"
  using calculateTabs_tab_stops [of 0 "[''abc'', ''abcdefghijk'', ''abcdefghijklmnopqrst'']"]
  by (simp add: calculateTabs_def)

text \<open>
  Claim C2, as it is written, fails for the names of lengths 7 and 9: both get one tab,
  the shorter name with its tab ends at column 8, before the end of the longer name
  (column 9) and before the column the longer name reaches with its tab (column 16).
  Nor does reading the column to reach as the tab stop at or before the end of the longest
  name save the claim: the count is then not the least one. For the lengths 3 and 20 that
  tab stop is column 16, which two tabs after the shorter name reach, and the count is 3.
\<close>

theorem calculateTabs_alignment_counterexample:
  "calculateTabs [''aaaaaaa'', ''bbbbbbbbb''] = [1, 1]
   \<and> \<not> (columnAfter 0 ''bbbbbbbbb''
          \<le> columnAfter 0 (padName ''aaaaaaa'' (calculateTabs [''aaaaaaa'', ''bbbbbbbbb''] ! 0)))
   \<and> \<not> (columnAfter 0 (padName ''bbbbbbbbb'' (calculateTabs [''aaaaaaa'', ''bbbbbbbbb''] ! 1))
          \<le> columnAfter 0 (padName ''aaaaaaa'' (calculateTabs [''aaaaaaa'', ''bbbbbbbbb''] ! 0)))
   \<and> calculateTabs [''abc'', ''abcdefghijklmnopqrst''] ! 0 = 3
   \<and> columnAfter 0 (padName ''abc'' 2) = (length ''abcdefghijklmnopqrst'' div 8) * 8"
  by (simp add: calculateTabs_def padName_def numeral_2_eq_2)

section \<open>Random project identifiers: length and alphabet\<close>

lemma length_characters: "length characters = 36"
  by (simp add: characters_def)

lemma random_index:
  assumes "0 \<le> r" and "r < 1"
  shows "0 \<le> \<lfloor>r * real (length characters)\<rfloor> \<and> \<lfloor>r * real (length characters)\<rfloor> < 36"
proof -
  have "0 \<le> r * 36" using assms(1) by simp
  moreover have "r * 36 < 36" using assms(2) by simp
  ultimately show ?thesis unfolding length_characters by (simp add: floor_less_iff)
qed

lemma charAtIndex_random:
  assumes "0 \<le> r" and "r < 1"
  shows "charAtIndex characters \<lfloor>r * real (length characters)\<rfloor>
           = [characters ! nat \<lfloor>r * real (length characters)\<rfloor>]"
  using random_index[OF assms] by (simp add: charAtIndex_def length_characters)

lemma concat_map_singleton: "concat (map (\<lambda>i. [f i]) xs) = map f xs"
  by (induction xs) simp_all

lemma generateRandomGcpProjectId_eq:
  assumes "\<forall>i. 0 \<le> random i \<and> random i < 1"
  shows "generateRandomGcpProjectId random =
           ''sipgateio-'' @ map (\<lambda>i. characters ! nat \<lfloor>random i * real (length characters)\<rfloor>) [0 ..< 20]"
proof -
  have "map (\<lambda>i. charAtIndex characters \<lfloor>random i * real (length characters)\<rfloor>) [0 ..< 20]
          = map (\<lambda>i. [characters ! nat \<lfloor>random i * real (length characters)\<rfloor>]) [0 ..< 20]"
    using assms by (intro map_cong refl charAtIndex_random) auto
  then have "concat (map (\<lambda>i. charAtIndex characters \<lfloor>random i * real (length characters)\<rfloor>) [0 ..< 20])
          = map (\<lambda>i. characters ! nat \<lfloor>random i * real (length characters)\<rfloor>) [0 ..< 20]"
    by (simp only: concat_map_singleton)
  moreover have "generateRandomGcpProjectId random = ''sipgateio-'' @
     concat (map (\<lambda>i. charAtIndex characters \<lfloor>random i * real (length characters)\<rfloor>) [0 ..< 20])"
    unfolding generateRandomGcpProjectId_def Let_def by simp
  ultimately show ?thesis by (simp only:)
qed

lemma generateRandomGcpProjectId_chars:
  assumes "\<forall>i. 0 \<le> random i \<and> random i < 1"
  shows "length (generateRandomGcpProjectId random) = 30
       \<and> take 10 (generateRandomGcpProjectId random) = ''sipgateio-''
       \<and> length (drop 10 (generateRandomGcpProjectId random)) = 20
       \<and> set (drop 10 (generateRandomGcpProjectId random)) \<subseteq> set characters"
proof -
  have in_chars: "characters ! nat \<lfloor>random i * real (length characters)\<rfloor> \<in> set characters" for i
  proof -
    from assms have "0 \<le> random i" and "random i < 1" by auto
    from random_index[OF this]
    have "nat \<lfloor>random i * real (length characters)\<rfloor> < 36"
      by linarith
    then show ?thesis by (intro nth_mem) (simp only: length_characters)
  qed
  show ?thesis
    unfolding generateRandomGcpProjectId_eq[OF assms]
    using in_chars by auto
qed

text \<open>
  Claim C10. Whatever \<^verbatim>\<open>Math.random()\<close> draws in its range, from 0 up to but not including
  1, the identifier has 30 characters: the prefix \<^verbatim>\<open>sipgateio-\<close> and 20 characters after
  it, each one of the lowercase letters a to z or of the digits 0 to 9.
\<close>

theorem generateRandomGcpProjectId_shape:
  assumes "\<forall>i. 0 \<le> random i \<and> random i < 1"
  shows "length (generateRandomGcpProjectId random) = 30
       \<and> take 10 (generateRandomGcpProjectId random) = ''sipgateio-''
       \<and> length (drop 10 (generateRandomGcpProjectId random)) = 20
       \<and> set (drop 10 (generateRandomGcpProjectId random))
            \<subseteq> set ''abcdefghijklmnopqrstuvwxyz0123456789''"
  using generateRandomGcpProjectId_chars[OF assms] by (simp only: characters_def)

theorem generateRandomGcpProjectId_shape_witness:
  "length (generateRandomGcpProjectId (\<lambda>i. 1 / 2)) = 30
   \<and> take 10 (generateRandomGcpProjectId (\<lambda>i. 1 / 2)) = ''sipgateio-''
   \<and> length (drop 10 (generateRandomGcpProjectId (\<lambda>i. 1 / 2))) = 20"
  using generateRandomGcpProjectId_shape [of "\<lambda>i. 1 / 2"] by simp

section \<open>Template questions: defaults and lines without an assignment\<close>

lemma composeQuestion_default:
  "q_default (composeQuestion line comment) =
     (case matchRuns (trim (slice line (indexOf line (CHR ''='') + 1) (int (length line)))) of
        None \<Rightarrow> None
      | Some (r, rs) \<Rightarrow> Some (Arr r rs))"
  by (simp add: composeQuestion_def Let_def split: option.splits)

lemma matchRuns_first:
  "matchRuns s =
     (if \<forall>c \<in> set s. isQuote c then None
      else Some (takeWhile (\<lambda>c. \<not> isQuote c) (dropWhile isQuote s),
                 quoteFreeRuns [] (dropWhile (\<lambda>c. \<not> isQuote c) (dropWhile isQuote s))))"
proof (cases "dropWhile isQuote s")
  case Nil
  then have all: "\<forall>c \<in> set s. isQuote c" by simp
  have "matchRuns s = None"
    unfolding matchRuns_def quoteFreeRuns_first[of s] Nil by simp
  with all show ?thesis by simp
next
  case (Cons c cs)
  then have some: "\<not> (\<forall>c \<in> set s. isQuote c)"
    by (metis dropWhile_eq_Nil_conv list.distinct(1))
  have "matchRuns s = Some (takeWhile (\<lambda>c. \<not> isQuote c) (c # cs),
                 quoteFreeRuns [] (dropWhile (\<lambda>c. \<not> isQuote c) (c # cs)))"
    unfolding matchRuns_def quoteFreeRuns_first[of s] Cons by simp
  with some show ?thesis unfolding Cons by simp
qed

lemma composeQuestion_default_text:
  assumes "CHR ''='' \<in> set line"
  shows "q_default (composeQuestion line comment) =
           (let text = trim (tl (dropWhile (\<lambda>c. c \<noteq> CHR ''='') line))
            in if \<forall>c \<in> set text. isQuote c then None
               else Some (Arr (takeWhile (\<lambda>c. \<not> isQuote c) (dropWhile isQuote text))
                          (quoteFreeRuns [] (dropWhile (\<lambda>c. \<not> isQuote c) (dropWhile isQuote text)))))"
  unfolding composeQuestion_default slice_after[OF assms] matchRuns_first Let_def
  by simp

lemma composeQuestion_default_examples:
  "q_default (composeQuestion ''KEY=\"hello world\"'' comment) = Some (Arr ''hello world'' [])"
  "q_default (composeQuestion ''KEY=bareword'' comment) = Some (Arr ''bareword'' [])"
  "q_default (composeQuestion ''KEY='' comment) = None"
  by (simp_all add: composeQuestion_def slice_def trim_def isWhiteSpace_def matchRuns_def
        isQuote_def Let_def)

text \<open>
  Claim C4, as the code has it. For a line with a \<open>=\<close>, the default of the question is
  taken from the trimmed text after the first \<open>=\<close>: it is absent when that text has no
  character other than quotes, and otherwise it is the array of all maximal quote-free runs
  of the text, whose first element is the first such run. So \<^verbatim>\<open>KEY="hello world"\<close> gives
  the one-element array of \<^verbatim>\<open>hello world\<close>, \<^verbatim>\<open>KEY=bareword\<close> the one-element array of
  \<^verbatim>\<open>bareword\<close>, and \<^verbatim>\<open>KEY=\<close> no default.
\<close>

theorem composeQuestion_default_runs:
  assumes "CHR ''='' \<in> set line"
  shows "q_default (composeQuestion line comment) =
           (let text = trim (tl (dropWhile (\<lambda>c. c \<noteq> CHR ''='') line))
            in if \<forall>c \<in> set text. isQuote c then None
               else Some (Arr (takeWhile (\<lambda>c. \<not> isQuote c) (dropWhile isQuote text))
                          (quoteFreeRuns [] (dropWhile (\<lambda>c. \<not> isQuote c) (dropWhile isQuote text)))))
       \<and> q_default (composeQuestion ''KEY=\"hello world\"'' comment) = Some (Arr ''hello world'' [])
       \<and> q_default (composeQuestion ''KEY=bareword'' comment) = Some (Arr ''bareword'' [])
       \<and> q_default (composeQuestion ''KEY='' comment) = None"
  by (intro conjI composeQuestion_default_text[OF assms] composeQuestion_default_examples)

theorem composeQuestion_default_runs_witness:
  "q_default (composeQuestion ''KEY=\"hello world\"'' ''INFO: greeting'') = Some (Arr ''hello world'' [])
   \<and> q_default (composeQuestion ''KEY='' ''INFO: greeting'') = None"
proof -
  have "CHR ''='' \<in> set ''KEY=\"hello world\"''" by simp
  from composeQuestion_default_runs [OF this, of "''INFO: greeting''"]
  show ?thesis by (elim conjE) (intro conjI)
qed

text \<open>
  Claim C4, as it is written, makes the default the first run itself. The default of
  \<^verbatim>\<open>KEY="hello world"\<close> is not that string but an array, and the array holds every run,
  not only the first: for \<^verbatim>\<open>KEY='a'b\<close> it is the array of \<^verbatim>\<open>a\<close> and \<^verbatim>\<open>b\<close>.
\<close>

theorem composeQuestion_default_counterexample:
  \<open>q_default (composeQuestion ''KEY="hello world"'' '''') \<noteq> Some (Str ''hello world'')
   \<and> q_default (composeQuestion ''KEY='a'b'' '''') = Some (Arr ''a'' [''b''])
   \<and> q_default (composeQuestion ''KEY='a'b'' '''') \<noteq> Some (Str ''a'')\<close>
  by (simp add: composeQuestion_def slice_def trim_def isWhiteSpace_def matchRuns_def
        isQuote_def Let_def)

lemma extractQuestionsFrom_acc:
  "extractQuestionsFrom comment qs envArray = qs @ extractQuestionsFrom comment [] envArray"
proof (induction envArray arbitrary: comment qs)
  case Nil
  show ?case by simp
next
  case (Cons line rest)
  show ?case
  proof (cases "startsWith line (CHR ''#'')")
    case True
    then show ?thesis by (simp add: Cons.IH[of _ qs])
  next
    case False
    then show ?thesis
      using Cons.IH[of "''''" "qs @ [composeQuestion line comment]"]
            Cons.IH[of "''''" "[composeQuestion line comment]"]
      by simp
  qed
qed

lemma extractQuestionsFrom_append:
  "\<exists>comment'. \<forall>qs after. extractQuestionsFrom comment qs (before @ after)
       = extractQuestionsFrom comment' (extractQuestionsFrom comment qs before) after"
proof (induction before arbitrary: comment)
  case Nil
  show ?case by (intro exI[of _ comment]) simp
next
  case (Cons line rest)
  show ?case
  proof (cases "startsWith line (CHR ''#'')")
    case True
    then show ?thesis using Cons.IH by simp
  next
    case False
    from Cons.IH[of "''''"] obtain c where
      "\<forall>qs after. extractQuestionsFrom '''' qs (rest @ after)
         = extractQuestionsFrom c (extractQuestionsFrom '''' qs rest) after" ..
    with False show ?thesis by (intro exI[of _ c]) simp
  qed
qed

lemma extractQuestions_line:
  assumes "\<not> startsWith line (CHR ''#'')"
  shows "\<exists>comment. extractQuestions (before @ line # after) =
           extractQuestions before @ composeQuestion line comment # extractQuestions after"
proof -
  obtain c where c: "\<And>qs after. extractQuestionsFrom '''' qs (before @ after)
       = extractQuestionsFrom c (extractQuestionsFrom '''' qs before) after"
    using extractQuestionsFrom_append[of "''''" before] by blast
  have "extractQuestions (before @ line # after)
          = extractQuestionsFrom c (extractQuestions before) (line # after)"
    unfolding extractQuestions_def by (rule c)
  also have "\<dots> = extractQuestionsFrom '''' (extractQuestions before @ [composeQuestion line c]) after"
    using assms by simp
  also have "\<dots> = extractQuestions before @ composeQuestion line c # extractQuestions after"
    unfolding extractQuestions_def
    by (subst extractQuestionsFrom_acc) simp
  finally show ?thesis by blast
qed

text \<open>
  Claim C6, as the code has it. A line that has no \<open>=\<close> and does not start with \<open>#\<close>
  raises nothing: wherever it stands in the template, \<^verbatim>\<open>extractQuestions\<close> emits one
  question for it, an input question, between the questions of the lines before it and
  those of the lines after it.
\<close>

theorem extractQuestions_line_without_equals:
  assumes "CHR ''='' \<notin> set line" and "\<not> startsWith line (CHR ''#'')"
  shows "\<exists>q. extractQuestions (before @ line # after) =
              extractQuestions before @ q # extractQuestions after
            \<and> q_type q = ''input''"
proof -
  from extractQuestions_line[OF assms(2), of before after] obtain comment where
    "extractQuestions (before @ line # after) =
       extractQuestions before @ composeQuestion line comment # extractQuestions after" ..
  moreover have "q_type (composeQuestion line comment) = ''input''"
    by (simp add: composeQuestion_def Let_def)
  ultimately show ?thesis by blast
qed

theorem extractQuestions_line_without_equals_witness:
  "\<exists>q. extractQuestions ([''A=1''] @ ''FOO'' # [''B=2'']) =
          extractQuestions [''A=1''] @ q # extractQuestions [''B=2'']
        \<and> q_type q = ''input''"
proof -
  have "CHR ''='' \<notin> set ''FOO''" and "\<not> startsWith ''FOO'' (CHR ''#'')"
    by (simp_all add: startsWith_def)
  then show ?thesis by (rule extractQuestions_line_without_equals)
qed

text \<open>
  Claim C6, as it is written, wants an error for such a line. For the line \<^verbatim>\<open>FOO\<close> the
  code raises none and returns one question (which it names \<^verbatim>\<open>FO\<close>).
\<close>

theorem extractQuestions_no_error_counterexample:
  "map (\<lambda>q. (q_name q, q_default q)) (extractQuestions [''FOO''])
     = [(''FO'', Some (Arr ''FOO'' []))]"
  by (simp add: extractQuestions_def startsWith_def composeQuestion_def slice_def trim_def
        isWhiteSpace_def matchRuns_def isQuote_def Let_def)

section \<open>The wizard: restarts and writes\<close>



lemma wizardPass_overwrite_confirmed:
  assumes "a_confirm a" and "configExists (w_files w) (''./'' @ a_filename a @ ''.cfg'')"
    and "a_confirmoverwrite a"
  shows "wizardPass K b envArray w a =
           Inr (resultConfig (a_envVarValues a),
                \<lparr>w_files = (w_files w)(''./'' @ a_filename a @ ''.cfg'' \<mapsto> b (a_envVarValues a)),
                 w_log = w_log w @ [Prompt (map q_name (extractQuestions envArray)),
                                    Prompt [''filename''], Prompt [''confirm''],
                                    Prompt [''confirmoverwrite''],
                                    WriteFile (''./'' @ a_filename a @ ''.cfg'') (b (a_envVarValues a)),
                                    WriteFile (''./'' @ a_filename a @ ''.cfg'') (b (a_envVarValues a))]\<rparr>)"
  using assms by (simp add: wizardPass_def Let_def emit_def writeFileSync_def)

lemma wizardPass_fresh:
  assumes "a_confirm a" and "\<not> configExists (w_files w) (''./'' @ a_filename a @ ''.cfg'')"
  shows "wizardPass K b envArray w a =
           Inr (resultConfig (a_envVarValues a),
                \<lparr>w_files = (w_files w)(''./'' @ a_filename a @ ''.cfg'' \<mapsto> b (a_envVarValues a)),
                 w_log = w_log w @ [Prompt (map q_name (extractQuestions envArray)),
                                    Prompt [''filename''], Prompt [''confirm''],
                                    WriteFile (''./'' @ a_filename a @ ''.cfg'') (b (a_envVarValues a))]\<rparr>)"
  using assms by (simp add: wizardPass_def Let_def emit_def writeFileSync_def)

lemma writesOf_append: "writesOf (xs @ ys) = writesOf xs @ writesOf ys"
  by (induction xs rule: writesOf.induct) simp_all

lemma warningsOf_append: "warningsOf (xs @ ys) = warningsOf xs @ warningsOf ys"
  by (induction xs rule: warningsOf.induct) simp_all



lemma wizardPass_restart_keeps:
  assumes "wizardPass K b envArray w a = Inl w'"
  shows "w_files w' = w_files w \<and> writesOf (w_log w') = writesOf (w_log w)"
  using assms
  by (auto simp: wizardPass_def Let_def emit_def writeFileSync_def writesOf_append
           split: if_splits)

lemma wizardPass_return_writes:
  assumes "wizardPass K b envArray w a = Inr (cfg, w')"
  shows "writesOf (w_log w') = writesOf (w_log w) @
           (if configExists (w_files w) (''./'' @ a_filename a @ ''.cfg'')
            then [(''./'' @ a_filename a @ ''.cfg'', b (a_envVarValues a)),
                  (''./'' @ a_filename a @ ''.cfg'', b (a_envVarValues a))]
            else [(''./'' @ a_filename a @ ''.cfg'', b (a_envVarValues a))])"
  using assms
  by (auto simp: wizardPass_def Let_def emit_def writeFileSync_def writesOf_append
           split: if_splits)

text \<open>
  What a run that returns has written: one file, the destination of its last pass, once
  when the destination did not exist and twice, with the same content, when it did.
\<close>

lemma wizard_writes:
  assumes "interactivelyGenerateConfig K b envArray w as = Some (cfg, w')"
  shows "\<exists>a \<in> set as. writesOf (w_log w') = writesOf (w_log w) @
           (if configExists (w_files w) (''./'' @ a_filename a @ ''.cfg'')
            then [(''./'' @ a_filename a @ ''.cfg'', b (a_envVarValues a)),
                  (''./'' @ a_filename a @ ''.cfg'', b (a_envVarValues a))]
            else [(''./'' @ a_filename a @ ''.cfg'', b (a_envVarValues a))])"
  using assms
proof (induction as arbitrary: w)
  case Nil
  then show ?case by simp
next
  case (Cons a as)
  show ?case
  proof (cases "wizardPass K b envArray w a")
    case (Inl w1)
    with Cons.prems have "interactivelyGenerateConfig K b envArray w1 as = Some (cfg, w')"
      by simp
    from Cons.IH[OF this] wizardPass_restart_keeps[OF Inl]
    show ?thesis by auto
  next
    case (Inr r)
    with Cons.prems have "wizardPass K b envArray w a = Inr (cfg, w')" by simp
    from wizardPass_return_writes[OF this] show ?thesis by simp
  qed
qed

text \<open>
  Claim C1 at its failing input. The destination \<^verbatim>\<open>./config.cfg\<close> exists, the user confirms
  the review and the overwrite: the run returns after two writes of the destination, the
  one of the overwrite branch and the one that ends the function, where the claim has
  exactly one.
\<close>

theorem wizard_overwrite_writes_twice:
  "map_option (\<lambda>(cfg, w). writesOf (w_log w))
     (interactivelyGenerateConfig
        \<lparr>c_YELLOW = ''<y>'', c_DEFAULT = ''<d>'', c_GRAY = ''<g>''\<rparr>
        (\<lambda>answers. ''X=2'') [''X=1'']
        \<lparr>w_files = [''./config.cfg'' \<mapsto> ''X=1''], w_log = []\<rparr>
        [\<lparr>a_envVarValues = [(''X'', Str ''2'')], a_filename = ''config'',
           a_confirm = True, a_confirmoverwrite = True\<rparr>])
   = Some [(''./config.cfg'', ''X=2''), (''./config.cfg'', ''X=2'')]"
  by (simp add: wizardPass_def Let_def emit_def writeFileSync_def configExists_def)

section \<open>The catalog filter\<close>

lemma includesStr_iff:
  "includesStr s q \<longleftrightarrow> (\<exists>i < Suc (length s). take (length q) (drop i s) = q)"
proof (induction s)
  case Nil
  show ?case by auto
next
  case (Cons x xs)
  have "(\<exists>i < Suc (length (x # xs)). take (length q) (drop i (x # xs)) = q)
          \<longleftrightarrow> take (length q) (x # xs) = q
              \<or> (\<exists>j < Suc (length xs). take (length q) (drop j xs) = q)"
    (is "?L \<longleftrightarrow> ?A \<or> ?B")
  proof
    assume ?L
    then obtain i where i: "i < Suc (length (x # xs))" "take (length q) (drop i (x # xs)) = q"
      by blast
    show "?A \<or> ?B"
    proof (cases i)
      case 0
      with i show ?thesis by simp
    next
      case (Suc j)
      with i have "j < Suc (length xs)" "take (length q) (drop j xs) = q" by simp_all
      then show ?thesis by blast
    qed
  next
    assume "?A \<or> ?B"
    then show ?L
    proof
      assume ?A
      then have "take (length q) (drop 0 (x # xs)) = q" by simp
      then show ?L by blast
    next
      assume ?B
      then obtain j where "j < Suc (length xs)" "take (length q) (drop j xs) = q" by blast
      then have "Suc j < Suc (length (x # xs))" "take (length q) (drop (Suc j) (x # xs)) = q"
        by simp_all
      then show ?L by blast
    qed
  qed
  with Cons.IH show ?case by simp
qed

lemma equalIgnoringCase_iff:
  "equalIgnoringCase s t \<longleftrightarrow> toLowerCase s = toLowerCase t"
proof -
  have "toLowerCase s = toLowerCase t
          \<longleftrightarrow> list_all2 (=) (map toLowerChar s) (map toLowerChar t)"
    unfolding toLowerCase_def by (simp only: list_all2_eq)
  also have "\<dots> \<longleftrightarrow> list_all2 (\<lambda>a b. toLowerChar a = toLowerChar b) s t"
    by (simp only: list_all2_map1 list_all2_map2)
  finally show ?thesis unfolding equalIgnoringCase_def by simp
qed

lemma containsIgnoringCase_iff:
  "containsIgnoringCase s q \<longleftrightarrow> includesStr (toLowerCase s) (toLowerCase q)"
proof -
  have "containsIgnoringCase s q
          \<longleftrightarrow> (\<exists>i < Suc (length s). toLowerCase (take (length q) (drop i s)) = toLowerCase q)"
    unfolding containsIgnoringCase_def list_ex_iff equalIgnoringCase_iff set_upt Bex_def
      atLeastLessThan_iff
    by blast
  also have "\<dots> \<longleftrightarrow> (\<exists>i < Suc (length (toLowerCase s)).
                 take (length (toLowerCase q)) (drop i (toLowerCase s)) = toLowerCase q)"
    unfolding toLowerCase_def by (simp add: take_map drop_map)
  finally show ?thesis unfolding includesStr_iff .
qed

text \<open>
  Claim C9. For a query, the choices of the prompt are the renderings, in catalog order, of
  exactly the entries whose repository or description contains the query as a
  case-insensitive substring; with no input yet, of all entries. With the query \<^verbatim>\<open>sms\<close>,
  of the entries \<^verbatim>\<open>sipgateio-sendsms-node\<close> and \<^verbatim>\<open>sipgateio-incomingcall-node\<close> only the first
  is kept.
\<close>

theorem exampleSource_filter:
  "exampleSource K githubProjects (Some query) =
     map (renderProject K)
       (filter (\<lambda>project. containsIgnoringCase (repository project) query
                          \<or> containsIgnoringCase (description project) query)
          githubProjects)
   \<and> exampleSource K githubProjects None = map (renderProject K) githubProjects
   \<and> exampleSource K
        (withTabOffsets
           [\<lparr>repository = ''sipgateio-sendsms-node'',
              description = ''A demonstration of how to send an SMS'', tabOffset = None\<rparr>,
            \<lparr>repository = ''sipgateio-incomingcall-node'',
              description = ''A demonstration of how to handle incoming calls'', tabOffset = None\<rparr>])
        (Some ''sms'')
       = [renderProject K
            \<lparr>repository = ''sipgateio-sendsms-node'',
              description = ''A demonstration of how to send an SMS'', tabOffset = Some 1\<rparr>]"
proof (intro conjI)
  show "exampleSource K githubProjects (Some query) =
     map (renderProject K)
       (filter (\<lambda>project. containsIgnoringCase (repository project) query
                          \<or> containsIgnoringCase (description project) query)
          githubProjects)"
    unfolding exampleSource_def containsIgnoringCase_iff by simp
  have "includesStr s ''''" for s by (cases s) simp_all
  then show "exampleSource K githubProjects None = map (renderProject K) githubProjects"
    unfolding exampleSource_def by simp
  have tabs: "withTabOffsets
           [\<lparr>repository = ''sipgateio-sendsms-node'',
              description = ''A demonstration of how to send an SMS'', tabOffset = None\<rparr>,
            \<lparr>repository = ''sipgateio-incomingcall-node'',
              description = ''A demonstration of how to handle incoming calls'', tabOffset = None\<rparr>]
         = [\<lparr>repository = ''sipgateio-sendsms-node'',
              description = ''A demonstration of how to send an SMS'', tabOffset = Some 1\<rparr>,
            \<lparr>repository = ''sipgateio-incomingcall-node'',
              description = ''A demonstration of how to handle incoming calls'', tabOffset = Some 1\<rparr>]"
    by (simp add: withTabOffsets_def calculateTabs_def enumerate_eq_zip upt_rec)
  have low: "toLowerCase ''sms'' = ''sms''"
     "toLowerCase ''sipgateio-sendsms-node'' = ''sipgateio-sendsms-node''"
     "toLowerCase ''sipgateio-incomingcall-node'' = ''sipgateio-incomingcall-node''"
     "toLowerCase ''A demonstration of how to handle incoming calls''
        = ''a demonstration of how to handle incoming calls''"
    by code_simp+
  show "exampleSource K
        (withTabOffsets
           [\<lparr>repository = ''sipgateio-sendsms-node'',
              description = ''A demonstration of how to send an SMS'', tabOffset = None\<rparr>,
            \<lparr>repository = ''sipgateio-incomingcall-node'',
              description = ''A demonstration of how to handle incoming calls'', tabOffset = None\<rparr>])
        (Some ''sms'')
       = [renderProject K
            \<lparr>repository = ''sipgateio-sendsms-node'',
              description = ''A demonstration of how to send an SMS'', tabOffset = Some 1\<rparr>]"
    unfolding tabs exampleSource_def by (simp add: low)
qed

section \<open>Loading a configuration: absent and empty values\<close>

lemma keys_insertIndex: "fst ` set (insertIndex k v obj) = insert k (fst ` set obj)"
proof (induction obj)
  case Nil
  show ?case by simp
next
  case (Cons e obj)
  obtain k' v' where e: "e = (k', v')" by (cases e)
  show ?case
  proof (cases "isArrayIndex k' \<and> indexValue k' < indexValue k")
    case True
    then have "insertIndex k v (e # obj) = (k', v') # insertIndex k v obj" by (simp add: e)
    then show ?thesis using Cons.IH by (simp add: e insert_commute)
  next
    case False
    then have "insertIndex k v (e # obj) = (k, v) # (k', v') # obj" by (auto simp: e)
    then show ?thesis by (simp add: e)
  qed
qed

lemma map_of_insertIndex:
  "k \<notin> fst ` set obj \<Longrightarrow>
     map_of (insertIndex k v obj) x = (if x = k then Some v else map_of obj x)"
proof (induction obj arbitrary: x)
  case Nil
  show ?case by simp
next
  case (Cons e obj)
  obtain k' v' where e: "e = (k', v')" by (cases e)
  from Cons.prems e have ne: "k' \<noteq> k" and nin: "k \<notin> fst ` set obj" by auto
  have ih: "\<And>y. map_of (insertIndex k v obj) y = (if y = k then Some v else map_of obj y)"
    using Cons.IH[OF nin] .
  have step: "map_of ((k', v') # insertIndex k v obj) x
                = (if x = k then Some v else map_of ((k', v') # obj) x)"
    using ne by (simp add: ih)
  show ?case
  proof (cases "isArrayIndex k' \<and> indexValue k' < indexValue k")
    case True
    then have "insertIndex k v (e # obj) = (k', v') # insertIndex k v obj" by (simp add: e)
    with step show ?thesis by (simp only: e)
  next
    case False
    then have "insertIndex k v (e # obj) = (k, v) # (k', v') # obj" by (auto simp: e)
    then show ?thesis by (simp add: e)
  qed
qed

lemma map_of_replace:
  "map_of (map (\<lambda>(k', v'). if k' = k then (k', v) else (k', v')) obj) x =
     (if x = k \<and> k \<in> fst ` set obj then Some v else map_of obj x)"
proof (induction obj arbitrary: x)
  case Nil
  show ?case by simp
next
  case (Cons e obj)
  obtain k' v' where e: "e = (k', v')" by (cases e)
  have ih: "\<And>y. map_of (map (\<lambda>(k', v'). if k' = k then (k', v) else (k', v')) obj) y =
     (if y = k \<and> k \<in> fst ` set obj then Some v else map_of obj y)"
    using Cons.IH .
  show ?case
  proof (cases "k' = k")
    case True
    then show ?thesis by (simp add: e ih)
  next
    case False
    then show ?thesis by (simp add: e ih)
  qed
qed

lemma map_of_last:
  "k \<notin> fst ` set obj \<Longrightarrow>
     map_of (obj @ [(k, v)]) x = (if x = k then Some v else map_of obj x)"
proof -
  assume "k \<notin> fst ` set obj"
  then have "map_of obj k = None" by (simp add: map_of_eq_None_iff)
  then show ?thesis by (cases "map_of obj x") (auto simp: map_add_def)
qed

lemma map_of_assign:
  "map_of (assign obj k v) x =
     (if k = ''__proto__'' \<and> k \<notin> fst ` set obj then map_of obj x
      else if x = k then Some v else map_of obj x)"
proof (cases "k \<in> fst ` set obj")
  case True
  then have "assign obj k v = map (\<lambda>(k', v'). if k' = k then (k', v) else (k', v')) obj"
    by (simp add: assign_def)
  then show ?thesis using True by (simp add: map_of_replace)
next
  case False
  note nin = this
  show ?thesis
  proof (cases "k = ''__proto__''")
    case True
    with nin show ?thesis by (simp add: assign_def)
  next
    case np: False
    show ?thesis
    proof (cases "isArrayIndex k")
      case True
      with nin np have "assign obj k v = insertIndex k v obj" by (simp add: assign_def)
      then show ?thesis using np by (simp add: map_of_insertIndex[OF nin])
    next
      case False
      with nin np have "assign obj k v = obj @ [(k, v)]" by (simp add: assign_def)
      then show ?thesis using np by (simp only: map_of_last[OF nin] if_False simp_thms)
    qed
  qed
qed

lemma keys_assign:
  "fst ` set (assign obj k v) =
     (if k = ''__proto__'' \<and> k \<notin> fst ` set obj then fst ` set obj else insert k (fst ` set obj))"
proof (cases "k \<in> fst ` set obj")
  case True
  have "fst ` set (map (\<lambda>(k', v'). if k' = k then (k', v) else (k', v')) obj) = fst ` set obj"
    by (induction obj) auto
  with True show ?thesis by (auto simp: assign_def)
next
  case False
  then show ?thesis by (simp add: assign_def keys_insertIndex)
qed

lemma map_of_storeLine:
  "map_of (storeLine line obj) x =
     (if envName (extractEnv line) = ''__proto__''
          \<and> envName (extractEnv line) \<notin> fst ` set obj
      then map_of obj x
      else if x = envName (extractEnv line) then Some (storedValue line) else map_of obj x)"
proof -
  have "storeLine line obj = assign obj (envName (extractEnv line)) (storedValue line)"
    by (simp add: storeLine_def storedValue_def Let_def)
  then show ?thesis by (simp only: map_of_assign)
qed

lemma keys_storeLine:
  "''__proto__'' \<notin> fst ` set obj \<Longrightarrow> ''__proto__'' \<notin> fst ` set (storeLine line obj)"
  unfolding storeLine_def Let_def keys_assign by auto

lemma keys_fold_storeLine:
  "''__proto__'' \<notin> fst ` set obj \<Longrightarrow> ''__proto__'' \<notin> fst ` set (fold storeLine ls obj)"
  by (induction ls arbitrary: obj) (simp_all add: keys_storeLine)

lemma map_of_fold_storeLine_None:
  assumes "k \<noteq> ''__proto__''"
  shows "map_of (fold storeLine ls obj) k = None \<longleftrightarrow>
     map_of obj k = None \<and> (\<forall>line \<in> set ls. envName (extractEnv line) \<noteq> k)"
  using assms by (induction ls arbitrary: obj) (auto simp: map_of_storeLine)

lemma map_of_fold_storeLine_Some:
  assumes "map_of (fold storeLine ls obj) k = Some v"
  shows "map_of obj k = Some v
       \<or> (\<exists>line \<in> set ls. envName (extractEnv line) = k \<and> storedValue line = v)"
  using assms
proof (induction ls arbitrary: obj)
  case Nil
  then show ?case by simp
next
  case (Cons l ls)
  from Cons.IH[of "storeLine l obj"] Cons.prems
  have "map_of (storeLine l obj) k = Some v
       \<or> (\<exists>line \<in> set ls. envName (extractEnv line) = k \<and> storedValue line = v)"
    by simp
  then show ?case by (auto simp: map_of_storeLine split: if_splits)
qed

lemma parseConfig_proto: "map_of (parseConfig content) ''__proto__'' = None"
proof -
  have "''__proto__'' \<notin> fst ` set (parseConfig content)"
    unfolding parseConfig_def by (rule keys_fold_storeLine) simp
  then show ?thesis by (simp add: map_of_eq_None_iff)
qed

lemma quoteFreeRuns_nonempty: "[] \<notin> set (quoteFreeRuns cur s)"
  by (induction s arbitrary: cur) auto

lemma matchRuns_nonempty: "matchRuns s = Some (r, rs) \<Longrightarrow> r \<noteq> []"
proof -
  assume "matchRuns s = Some (r, rs)"
  then have "quoteFreeRuns [] s = r # rs"
    by (simp add: matchRuns_def split: list.splits)
  then have "r \<in> set (quoteFreeRuns [] s)" by simp
  with quoteFreeRuns_nonempty[of "[]" s] show ?thesis by auto
qed

lemma storedValue_empty: "storedValue line = '''' \<longleftrightarrow> envValue (extractEnv line) = None"
  using matchRuns_nonempty
  by (auto simp: storedValue_def extractEnv_def split: option.splits)

text \<open>
  What \<^verbatim>\<open>loadConfig\<close> returns for a key other than \<^verbatim>\<open>__proto__\<close>: the key has no entry
  exactly when no line of the file assigns it; a key that has an entry has the string that
  one of its lines stores; and the entry is the empty string only when such a line has no
  quote-free text after its \<open>=\<close>. The key \<^verbatim>\<open>__proto__\<close> never has an entry.
\<close>

lemma loadConfig_other_keys:
  assumes "fst (loadConfig fs configPath) = Inr cfg" and "k \<noteq> ''__proto__''"
  shows "\<exists>content. fs (case configPath of None \<Rightarrow> ''./config.cfg'' | Some p \<Rightarrow> p) = Some content
       \<and> (map_of cfg k = None \<longleftrightarrow>
            (\<forall>line \<in> set (configLines content). envName (extractEnv line) \<noteq> k))
       \<and> (\<forall>v. map_of cfg k = Some v \<longrightarrow>
            (\<exists>line \<in> set (configLines content). envName (extractEnv line) = k
               \<and> v = (case envValue (extractEnv line) of None \<Rightarrow> '''' | Some (r, rs) \<Rightarrow> r)))
       \<and> (map_of cfg k = Some '''' \<longrightarrow>
            (\<exists>line \<in> set (configLines content). envName (extractEnv line) = k
               \<and> envValue (extractEnv line) = None))
       \<and> map_of cfg ''__proto__'' = None"
proof -
  from assms(1) obtain content where
    c: "fs (case configPath of None \<Rightarrow> ''./config.cfg'' | Some p \<Rightarrow> p) = Some content"
    and cfg: "cfg = parseConfig content"
    by (auto simp: loadConfig_def Let_def split: option.splits)
  have none: "map_of cfg k = None \<longleftrightarrow>
            (\<forall>line \<in> set (configLines content). envName (extractEnv line) \<noteq> k)"
    unfolding cfg parseConfig_def by (simp add: map_of_fold_storeLine_None[OF assms(2)])
  have some: "\<exists>line \<in> set (configLines content). envName (extractEnv line) = k
               \<and> storedValue line = v" if "map_of cfg k = Some v" for v
    using map_of_fold_storeLine_Some[of "configLines content" "[]" k v] that
    unfolding cfg parseConfig_def by simp
  have empty: "\<exists>line \<in> set (configLines content). envName (extractEnv line) = k
               \<and> envValue (extractEnv line) = None" if "map_of cfg k = Some ''''"
    using some[OF that] by (simp add: storedValue_empty)
  show ?thesis
  proof (intro exI[of _ content] conjI allI impI)
    show "fs (case configPath of None \<Rightarrow> ''./config.cfg'' | Some p \<Rightarrow> p) = Some content"
      by (rule c)
    show "map_of cfg k = None \<longleftrightarrow>
            (\<forall>line \<in> set (configLines content). envName (extractEnv line) \<noteq> k)"
      by (rule none)
    show "\<exists>line \<in> set (configLines content). envName (extractEnv line) = k
             \<and> v = (case envValue (extractEnv line) of None \<Rightarrow> '''' | Some (r, rs) \<Rightarrow> r)"
      if "map_of cfg k = Some v" for v
      using some[OF that] unfolding storedValue_def by auto
    show "\<exists>line \<in> set (configLines content). envName (extractEnv line) = k
               \<and> envValue (extractEnv line) = None" if "map_of cfg k = Some ''''"
      using that by (rule empty)
    show "map_of cfg ''__proto__'' = None" unfolding cfg by (rule parseConfig_proto)
  qed
qed

text \<open>
  Claim C5 at its failing input. The file whose one line is \<^verbatim>\<open>__proto__=\<close> configures the
  variable \<^verbatim>\<open>__proto__\<close> as empty, and \<^verbatim>\<open>loadConfig\<close> returns for it what it returns for
  the empty file, a configuration without entries: configured as empty and not configured
  are represented alike. The line \<^verbatim>\<open>A=\<close> is stored as the entry of \<^verbatim>\<open>A\<close> with the empty
  string.
\<close>

theorem loadConfig_proto_line_lost:
  "fst (loadConfig [''./config.cfg'' \<mapsto> ''__proto__=''] None) = Inr []
   \<and> fst (loadConfig [''./config.cfg'' \<mapsto> ''''] None) = Inr []
   \<and> fst (loadConfig [''./config.cfg'' \<mapsto> ''A=''] None) = Inr [(''A'', '''')]"
  by (simp add: loadConfig_def parseConfig_def configLines_def storeLine_def extractEnv_def
        startsWith_def trim_def isWhiteSpace_def slice_def matchRuns_def isQuote_def Let_def
        assign_def isArrayIndex_def isDigit_def)

text \<open>
  The order of the entries of a loaded configuration is the order of the object, not of
  the file: array indices come first, and a key assigned twice keeps its first place.
\<close>

lemma parseConfig_index_keys_first:
  "parseConfig ''B=x\<newline>10=y\<newline>2=z\<newline>B=w'' = [(''2'', ''z''), (''10'', ''y''), (''B'', ''w'')]"
  by (simp add: parseConfig_def configLines_def storeLine_def extractEnv_def
        startsWith_def trim_def isWhiteSpace_def slice_def matchRuns_def isQuote_def Let_def
        assign_def isArrayIndex_def isDigit_def indexValue_def)

section \<open>Validated selection of the region and of the project\<close>






lemma promptsOf_append: "promptsOf (xs @ ys) = promptsOf xs @ promptsOf ys"
  by (induction xs rule: promptsOf.induct) simp_all






lemma gcloudSetProject_prompts [simp]: "promptsOf (snd (gcloudSetProject K execCommand n)) = []"
  by (simp add: gcloudSetProject_def Let_def split: option.splits)

lemma gcloudSetProject_no_invalid [simp]:
  "invalidWarning K key v \<notin> set (warningsOf (snd (gcloudSetProject K execCommand n)))"
  by (simp add: gcloudSetProject_def Let_def invalidWarning_def split: option.splits)


lemma useSelectedProject_prompts [simp]:
  "promptsOf (snd (useSelectedProject K execCommand pid stdout answer)) = []"
  by (simp add: useSelectedProject_def createGoogleCloudProject_def Let_def promptsOf_append
        case_prod_beta split: option.splits)

lemma useSelectedProject_no_invalid [simp]:
  "invalidWarning K key v
     \<notin> set (warningsOf (snd (useSelectedProject K execCommand pid stdout answer)))"
  by (simp add: useSelectedProject_def createGoogleCloudProject_def Let_def warningsOf_append
        case_prod_beta split: option.splits)










section \<open>Saving and loading: the round trip\<close>

lemma splitStr_line:
  "c \<notin> set l \<Longrightarrow> splitStr c (l @ c # rest) = l # splitStr c rest"
proof (induction l)
  case Nil
  show ?case by simp
next
  case (Cons x l)
  then have "x \<noteq> c" and "splitStr c (l @ c # rest) = l # splitStr c rest" by auto
  then show ?case by simp
qed

lemma splitStr_lines:
  "\<forall>l \<in> set ls. c \<notin> set l \<Longrightarrow> splitStr c (concat (map (\<lambda>l. l @ [c]) ls)) = ls @ [[]]"
proof (induction ls)
  case Nil
  show ?case by simp
next
  case (Cons l ls)
  then have "c \<notin> set l" and ih: "splitStr c (concat (map (\<lambda>l. l @ [c]) ls)) = ls @ [[]]"
    by simp_all
  from splitStr_line[OF this(1), of "concat (map (\<lambda>l. l @ [c]) ls)"] ih
  show ?case by simp
qed

lemma trim_Nil_iff: "trim s = [] \<longleftrightarrow> (\<forall>c \<in> set s. isWhiteSpace c)"
proof -
  have "trim s = [] \<longleftrightarrow> (\<forall>c \<in> set (dropWhile isWhiteSpace s). isWhiteSpace c)"
    unfolding trim_def by (simp add: dropWhile_eq_Nil_conv)
  also have "\<dots> \<longleftrightarrow> (\<forall>c \<in> set s. isWhiteSpace c)"
  proof
    assume a: "\<forall>c \<in> set (dropWhile isWhiteSpace s). isWhiteSpace c"
    show "\<forall>c \<in> set s. isWhiteSpace c"
    proof (cases "dropWhile isWhiteSpace s")
      case Nil
      then show ?thesis by (simp add: dropWhile_eq_Nil_conv)
    next
      case (Cons x xs)
      then have "\<not> isWhiteSpace x" by (metis hd_dropWhile list.distinct(1) list.sel(1))
      with a Cons show ?thesis by simp
    qed
  next
    assume "\<forall>c \<in> set s. isWhiteSpace c"
    then show "\<forall>c \<in> set (dropWhile isWhiteSpace s). isWhiteSpace c"
      using set_dropWhileD by fast
  qed
  finally show ?thesis .
qed

lemma buildEnv_lines:
  "buildEnv cfg = concat (map (\<lambda>l. l @ [CHR ''\<newline>'']) (map (\<lambda>(k, v). k @ CHR ''='' # v) cfg))"
  by (induction cfg) (simp_all add: buildEnv_def case_prod_beta)

lemma line_kept:
  assumes "\<not> startsWith k (CHR ''#'')"
  shows "\<not> startsWith (k @ CHR ''='' # v) (CHR ''#'') \<and> trim (k @ CHR ''='' # v) \<noteq> ''''"
proof
  show "\<not> startsWith (k @ CHR ''='' # v) (CHR ''#'')"
    using assms by (cases k) (simp_all add: startsWith_def)
  have "\<not> isWhiteSpace (CHR ''='')" by (simp add: isWhiteSpace_def)
  then show "trim (k @ CHR ''='' # v) \<noteq> ''''"
    unfolding trim_Nil_iff by auto
qed

lemma configLines_buildEnv:
  assumes "\<forall>(k, v) \<in> set cfg. plainKey k \<and> plainValue v"
  shows "configLines (buildEnv cfg) = map (\<lambda>(k, v). k @ CHR ''='' # v) cfg"
proof -
  have nl: "\<forall>l \<in> set (map (\<lambda>(k, v). k @ CHR ''='' # v) cfg). CHR ''\<newline>'' \<notin> set l"
    using assms by (auto simp: plainKey_def plainValue_def)
  have keep: "\<forall>l \<in> set (map (\<lambda>(k, v). k @ CHR ''='' # v) cfg).
                \<not> startsWith l (CHR ''#'') \<and> trim l \<noteq> ''''"
    using assms line_kept by (auto simp: plainKey_def)
  have "configLines (buildEnv cfg)
          = filter (\<lambda>line. \<not> startsWith line (CHR ''#'') \<and> trim line \<noteq> '''')
              (map (\<lambda>(k, v). k @ CHR ''='' # v) cfg @ [[]])"
    unfolding configLines_def buildEnv_lines splitStr_lines[OF nl] ..
  also have "\<dots> = map (\<lambda>(k, v). k @ CHR ''='' # v) cfg"
    using keep by (simp add: trim_def filter_id_conv)
  finally show ?thesis .
qed

lemma quoteFreeRuns_plain:
  "\<forall>c \<in> set v. \<not> isQuote c \<Longrightarrow>
     quoteFreeRuns cur v = (if cur @ v = [] then [] else [cur @ v])"
  by (induction v arbitrary: cur) auto

lemma extractEnv_line:
  assumes "plainKey k" and "plainValue v"
  shows "extractEnv (k @ CHR ''='' # v) = \<lparr>envName = k, envValue = (if v = [] then None else Some (v, []))\<rparr>"
proof -
  have eq: "CHR ''='' \<in> set (k @ CHR ''='' # v)" by simp
  have noeq: "CHR ''='' \<notin> set k" using assms(1) by (simp add: plainKey_def)
  have before: "takeWhile (\<lambda>x. x \<noteq> CHR ''='') (k @ CHR ''='' # v) = k"
    using noeq by (induction k) auto
  have after: "tl (dropWhile (\<lambda>x. x \<noteq> CHR ''='') (k @ CHR ''='' # v)) = v"
    using noeq by (induction k) auto
  have tk: "trim k = k" using assms(1) by (simp add: plainKey_def)
  have tv: "trim v = v" and nq: "\<forall>c \<in> set v. \<not> isQuote c"
    using assms(2) by (simp_all add: plainValue_def)
  have "matchRuns v = (if v = [] then None else Some (v, []))"
    unfolding matchRuns_def quoteFreeRuns_plain[OF nq] by simp
  then show ?thesis
    unfolding extractEnv_def slice_before[OF eq] slice_after[OF eq] before after tk tv by simp
qed

lemma storeLine_line:
  assumes "plainKey k" and "plainValue v"
  shows "storeLine (k @ CHR ''='' # v) cfgObj = assign cfgObj k v"
  by (simp add: storeLine_def Let_def extractEnv_line[OF assms])

lemma insertIndex_last:
  "\<forall>k' \<in> fst ` set obj. isArrayIndex k' \<and> indexValue k' < indexValue k \<Longrightarrow>
     insertIndex k v obj = obj @ [(k, v)]"
  by (induction obj) auto

lemma objectOrder_prefix: "objectOrder (xs @ ys) \<Longrightarrow> objectOrder xs"
  by (auto simp: objectOrder_def sorted_wrt_append)

lemma assign_next:
  assumes "objectOrder (obj @ [(k, v)])"
  shows "assign obj k v = obj @ [(k, v)]"
proof -
  from assms have new: "k \<notin> set (map fst obj)" and np: "k \<noteq> ''__proto__''"
    and before: "\<forall>k' \<in> set (map fst obj).
                   isArrayIndex k \<longrightarrow> isArrayIndex k' \<and> indexValue k' < indexValue k"
    by (auto simp: objectOrder_def sorted_wrt_append)
  show ?thesis
  proof (cases "isArrayIndex k")
    case True
    with before have "\<forall>k' \<in> fst ` set obj. isArrayIndex k' \<and> indexValue k' < indexValue k"
      by simp
    from insertIndex_last[OF this] new np True show ?thesis by (simp add: assign_def)
  next
    case False
    with new np show ?thesis by (simp add: assign_def)
  qed
qed

lemma fold_storeLine_lines:
  assumes "\<forall>(k, v) \<in> set cfg. plainKey k \<and> plainValue v" and "objectOrder (acc @ cfg)"
  shows "fold storeLine (map (\<lambda>(k, v). k @ CHR ''='' # v) cfg) acc = acc @ cfg"
  using assms
proof (induction cfg arbitrary: acc)
  case Nil
  show ?case by simp
next
  case (Cons kv cfg)
  obtain k v where kv: "kv = (k, v)" by (cases kv)
  from Cons.prems(1) kv have pk: "plainKey k" and pv: "plainValue v" by simp_all
  from Cons.prems(2) kv have all: "objectOrder ((acc @ [(k, v)]) @ cfg)" by simp
  then have "objectOrder (acc @ [(k, v)])" by (rule objectOrder_prefix)
  then have step: "storeLine (k @ CHR ''='' # v) acc = acc @ [(k, v)]"
    by (simp add: storeLine_line[OF pk pv] assign_next)
  have "fold storeLine (map (\<lambda>(k, v). k @ CHR ''='' # v) cfg) (acc @ [(k, v)])
          = (acc @ [(k, v)]) @ cfg"
  proof (rule Cons.IH)
    show "\<forall>(k, v) \<in> set cfg. plainKey k \<and> plainValue v" using Cons.prems(1) by simp
    show "objectOrder ((acc @ [(k, v)]) @ cfg)" by (rule all)
  qed
  then show ?case using step kv by simp
qed

lemma parseConfig_buildEnv:
  assumes "\<forall>(k, v) \<in> set cfg. plainKey k \<and> plainValue v" and "objectOrder cfg"
  shows "parseConfig (buildEnv cfg) = cfg"
  unfolding parseConfig_def configLines_buildEnv[OF assms(1)]
  using fold_storeLine_lines[OF assms(1), of "[]"] assms(2) by simp

text \<open>
  Claim C3, as the code has it. Take a configuration by its entries in the order in which
  the object enumerates them, no key being \<^verbatim>\<open>__proto__\<close>. When its keys are plain (no
  \<open>=\<close>, no line break, no \<open>#\<close> at the start, no white space at the ends) and its values
  are plain (no quote, no line break, no white space at the ends), it is loaded back from
  the file that saving wrote as it was: the same keys, the same values, in the same order.
\<close>

theorem load_save_round_trip:
  assumes "\<forall>(k, v) \<in> set cfg. plainKey k \<and> plainValue v" and "objectOrder cfg"
  shows "fst (loadConfig (saveConfig fs path cfg) (Some path)) = Inr cfg
       \<and> fst (loadConfig (saveConfig fs ''./config.cfg'' cfg) None) = Inr cfg"
  by (simp add: loadConfig_def saveConfig_def Let_def parseConfig_buildEnv[OF assms])

lemma indexValue_examples: "indexValue ''2'' = 2" "indexValue ''10'' = 10"
  by (simp_all add: indexValue_def)

theorem load_save_round_trip_witness:
  "fst (loadConfig
         (saveConfig Map.empty ''./my.cfg''
            [(''2'', ''b''), (''10'', ''a''), (''B'', ''x=1''), (''C'', '''')])
         (Some ''./my.cfg''))
     = Inr [(''2'', ''b''), (''10'', ''a''), (''B'', ''x=1''), (''C'', '''')]"
proof -
  have "\<forall>(k, v) \<in> set [(''2'', ''b''), (''10'', ''a''), (''B'', ''x=1''), (''C'', '''')].
          plainKey k \<and> plainValue v"
    by (simp add: plainKey_def plainValue_def startsWith_def trim_def isWhiteSpace_def isQuote_def)
  moreover have "objectOrder [(''2'', ''b''), (''10'', ''a''), (''B'', ''x=1''), (''C'', '''')]"
    by (simp add: objectOrder_def isArrayIndex_def isDigit_def indexValue_examples)
  ultimately show ?thesis
    using load_save_round_trip
      [of "[(''2'', ''b''), (''10'', ''a''), (''B'', ''x=1''), (''C'', '''')]"
          Map.empty "''./my.cfg''"]
    by blast
qed

text \<open>
  Claim C3, as it is written, holds for every configuration. The value \<^verbatim>\<open>x'y\<close> is loaded
  back as \<^verbatim>\<open>x\<close>, the first quote-free run of the line, and a value with a leading blank
  is loaded back trimmed.
\<close>

theorem load_save_round_trip_counterexample:
  \<open>fst (loadConfig (saveConfig Map.empty ''./my.cfg'' [(''A'', ''x'y'')]) (Some ''./my.cfg''))
     = Inr [(''A'', ''x'')]
   \<and> fst (loadConfig (saveConfig Map.empty ''./my.cfg'' [(''A'', ''x'y'')]) (Some ''./my.cfg''))
     \<noteq> Inr [(''A'', ''x'y'')]
   \<and> fst (loadConfig (saveConfig Map.empty ''./my.cfg'' [(''A'', '' x'')]) (Some ''./my.cfg''))
     = Inr [(''A'', ''x'')]\<close>
  by (simp add: loadConfig_def saveConfig_def buildEnv_def parseConfig_def configLines_def
        storeLine_def extractEnv_def startsWith_def trim_def isWhiteSpace_def slice_def
        matchRuns_def isQuote_def Let_def assign_def isArrayIndex_def isDigit_def)

end
